theory Spec2Isabelle
  imports Main "HOL-Library.Sublist" "HOL-Library.Char_ord" "HOL-Library.List_Lexorder"
begin

section \<open>Python string and list primitives used by \<^verbatim>\<open>scholar.py\<close>\<close>

text \<open>
  A Python \<^verbatim>\<open>str\<close> is modelled as a \<open>string\<close>. The model reads a string as a sequence
  of ASCII characters: \<open>length\<close> is Python's \<^verbatim>\<open>len\<close> and \<open>lower\<close> below is Python's
  \<^verbatim>\<open>str.lower\<close> on such text.

  The exceptions that the modelled code can raise are values of \<open>py_error\<close>; a
  computation that may raise returns \<open>py_error + 'a\<close>, with \<open>Inl\<close> for the exception.
\<close>

datatype upstream_exception = StopIteration | OtherException string

datatype py_error = ValueError | IndexError | KeyError | Upstream upstream_exception

text \<open>
  \<open>upstream_exception\<close> is what a call into the \<^verbatim>\<open>scholarly\<close> library can raise:
  \<^verbatim>\<open>StopIteration\<close> from \<^verbatim>\<open>next\<close>, or any other exception of class
  \<^verbatim>\<open>Exception\<close>, kept with its message \<^verbatim>\<open>str(e)\<close>. Interrupts that are not of class
  \<^verbatim>\<open>Exception\<close> are not part of the model.
\<close>

definition bind_err :: "py_error + 'a \<Rightarrow> ('a \<Rightarrow> py_error + 'b) \<Rightarrow> py_error + 'b" where
  "bind_err m f = (case m of Inl e \<Rightarrow> Inl e | Inr x \<Rightarrow> f x)"

text \<open>\<^verbatim>\<open>sub in s\<close> for two strings: \<open>sub\<close> occurs in \<open>s\<close> at some position.\<close>

fun contains :: "'a list \<Rightarrow> 'a list \<Rightarrow> bool" where
  "contains sub [] = (sub = [])"
| "contains sub (c # cs) = (prefix sub (c # cs) \<or> contains sub cs)"

text \<open>
  \<^verbatim>\<open>s.split(sep)\<close> for a non-empty separator: the string is cut at the leftmost
  occurrences of \<open>sep\<close>, scanning from the left and resuming after each occurrence.
  The result always has at least one part. Python raises \<^verbatim>\<open>ValueError\<close> for an empty
  separator; every call in \<^verbatim>\<open>scholar.py\<close> passes a non-empty literal, and with an
  empty separator this function makes no cut.
\<close>

fun split_str :: "'a list \<Rightarrow> 'a list \<Rightarrow> 'a list list" where
  "split_str sep [] = [[]]"
| "split_str sep (c # cs) =
     (if sep \<noteq> [] \<and> prefix sep (c # cs)
      then [] # split_str sep (drop (length sep - 1) cs)
      else (case split_str sep cs of
              [] \<Rightarrow> [[c]]
            | p # ps \<Rightarrow> (c # p) # ps))"

text \<open>\<^verbatim>\<open>sep.join(parts)\<close>.\<close>

fun join :: "'a list \<Rightarrow> 'a list list \<Rightarrow> 'a list" where
  "join sep [] = []"
| "join sep [p] = p"
| "join sep (p # q # ps) = p @ sep @ join sep (q # ps)"

text \<open>\<^verbatim>\<open>xs[1]\<close>: the second element, or \<^verbatim>\<open>IndexError\<close>.\<close>

fun index1 :: "'a list \<Rightarrow> py_error + 'a" where
  "index1 (x # y # ys) = Inr y"
| "index1 xs = Inl IndexError"

text \<open>\<^verbatim>\<open>str.lower\<close> on ASCII text: the letters A to Z move to a to z.\<close>

definition lower_char :: "char \<Rightarrow> char" where
  "lower_char c =
     (let n = (of_char c :: nat) in if 65 \<le> n \<and> n \<le> 90 then char_of (n + 32) else c)"

definition lower :: "string \<Rightarrow> string" where
  "lower s = map lower_char s"

section \<open>\<^verbatim>\<open>_nsf_name_cleanup\<close>\<close>

text \<open>
  Lines 196 to 209, for one name and for the list. \<^verbatim>\<open>name_parts[-1]\<close> is \<open>last\<close> and
  \<^verbatim>\<open>name_parts[:-1]\<close> is \<open>butlast\<close>; \<^verbatim>\<open>notlastname[0]\<close> is \<open>hd\<close> of a split, which is
  never empty.
\<close>

definition nsf_name_cleanup1 :: "string \<Rightarrow> py_error + string" where
  "nsf_name_cleanup1 coauthor =
     (let name_parts = split_str '' '' coauthor;
          reordered_name = last name_parts @ '', '' @ join '' '' (butlast name_parts)
      in if length name_parts > 2
         then bind_err (index1 (split_str '', '' reordered_name)) (\<lambda>first_middle.
                let notlastname = split_str '' '' first_middle in
                if length (hd notlastname) < 2
                then bind_err (index1 notlastname) (\<lambda>second.
                       Inr (last name_parts @ '', '' @ second @ '' '' @ hd notlastname))
                else Inr reordered_name)
         else Inr reordered_name)"

fun nsf_name_cleanup :: "string list \<Rightarrow> py_error + string list" where
  "nsf_name_cleanup [] = Inr []"
| "nsf_name_cleanup (coauthor # coauthors) =
     bind_err (nsf_name_cleanup1 coauthor) (\<lambda>reordered_name.
     bind_err (nsf_name_cleanup coauthors) (\<lambda>cleaned_coauthors.
       Inr (reordered_name # cleaned_coauthors)))"

section \<open>\<^verbatim>\<open>_nsf_affiliation_cleanup\<close>\<close>

definition title_words :: "string list" where
  "title_words = [''professor'', ''student'', ''scientist'', ''researcher'', ''lecturer'',
     ''fellow'', ''scholar'']"

definition has_title :: "string \<Rightarrow> bool" where
  "has_title affiliation = list_ex (\<lambda>word. contains word (lower affiliation)) title_words"

text \<open>
  Lines 229 to 253, the body of the loop for one affiliation. \<^verbatim>\<open>[1:]\<close> of a list is
  \<open>tl\<close>; \<^verbatim>\<open>[1]\<close> raises \<^verbatim>\<open>IndexError\<close> on a list of one element.
\<close>

definition nsf_affiliation_cleanup1 :: "string \<Rightarrow> py_error + string" where
  "nsf_affiliation_cleanup1 affiliation =
     (if affiliation \<noteq> []
      then (let parts = split_str '', '' affiliation in
            if has_title affiliation
            then (if contains '' at '' (lower affiliation)
                  then index1 (split_str '' at '' affiliation)
                  else if contains ''@'' (lower affiliation)
                  then index1 (split_str ''@ '' affiliation)
                  else if length parts > 1
                  then (if length parts > 2
                        then Inr (join '', '' (tl (split_str '', '' affiliation)))
                        else index1 (split_str '', '' affiliation))
                  else Inr [])
            else Inr affiliation)
      else Inr affiliation)"

fun nsf_affiliation_cleanup :: "string list \<Rightarrow> py_error + string list" where
  "nsf_affiliation_cleanup [] = Inr []"
| "nsf_affiliation_cleanup (affiliation # affiliations) =
     bind_err (nsf_affiliation_cleanup1 affiliation) (\<lambda>cleaned_affiliation.
     bind_err (nsf_affiliation_cleanup affiliations) (\<lambda>cleaned_affiliations.
       Inr (cleaned_affiliation # cleaned_affiliations)))"

section \<open>\<^verbatim>\<open>get_scholar_info\<close>\<close>

text \<open>
  The author search is outside the program: \<open>search\<close> gives, for a name, what
  \<^verbatim>\<open>next(scholarly.search_author(name))\<close> does, either an exception or the first author
  record, of which only the key \<^verbatim>\<open>affiliation\<close> is read. \<open>search_first\<close> is the body of
  the \<^verbatim>\<open>try\<close>, \<open>get_scholar_info\<close> adds the two handlers.
\<close>

record author_record =
  author_affiliation :: "string option"

type_synonym author_search = "string \<Rightarrow> upstream_exception + author_record"

definition search_first :: "author_search \<Rightarrow> string \<Rightarrow> upstream_exception + string" where
  "search_first search name =
     (case search name of
        Inl e \<Rightarrow> Inl e
      | Inr author \<Rightarrow>
          Inr (case author_affiliation author of Some affiliation \<Rightarrow> affiliation | None \<Rightarrow> []))"

definition get_scholar_info :: "author_search \<Rightarrow> string \<Rightarrow> upstream_exception + string" where
  "get_scholar_info search name =
     (case search_first search name of
        Inr affiliation \<Rightarrow> Inr affiliation
      | Inl StopIteration \<Rightarrow> Inr []
      | Inl (OtherException msg) \<Rightarrow> Inr (''An error occurred: '' @ msg))"

section \<open>\<^verbatim>\<open>_get_coauthors_from_pubs\<close>\<close>

text \<open>
  A publication is a dictionary; the code reads \<^verbatim>\<open>paper["bib"]\<close>, and in it
  \<^verbatim>\<open>pub_year\<close> and \<^verbatim>\<open>author\<close>. Each key may be absent. The value under
  \<^verbatim>\<open>pub_year\<close> is kept as \<^verbatim>\<open>int\<close> reads it: the integer, or the exception that
  \<^verbatim>\<open>int\<close> raises on it.
\<close>

record bib_entry =
  bib_pub_year :: "(py_error + int) option"
  bib_author :: "string option"

record publication =
  pub_bib :: "bib_entry option"

text \<open>
  Everything the program takes from outside: the year of \<^verbatim>\<open>datetime.date.today()\<close>, the
  profile and publication look-ups of \<^verbatim>\<open>scholarly\<close>, the author search (which may answer
  differently at each call, so it also takes the number of the call), the order in which
  \<^verbatim>\<open>list(set(...))\<close> lists a set, and whether opening the output file raises.
\<close>

record scholar_profile =
  profile_publications :: "publication list option"
  profile_name :: "string option"

datatype path_arg = PathStr string | PathObj string

record world =
  today_year :: int
  scholar_profile_of :: "string \<Rightarrow> py_error + scholar_profile"
  fill_publication :: "publication \<Rightarrow> py_error + publication"
  set_order :: "string list \<Rightarrow> string list"
  search_author :: "nat \<Rightarrow> author_search"
  open_file :: "path_arg \<Rightarrow> py_error option"

text \<open>Lines 117 to 126: the year filter. The comprehension keeps the order of the papers.\<close>

definition paper_year :: "int \<Rightarrow> bib_entry \<Rightarrow> py_error + int" where
  "paper_year current_year b =
     (case bib_pub_year b of None \<Rightarrow> Inr current_year | Some y \<Rightarrow> y)"

fun filter_by_year :: "int \<Rightarrow> int \<Rightarrow> publication list \<Rightarrow> py_error + publication list" where
  "filter_by_year current_year year_cutoff [] = Inr []"
| "filter_by_year current_year year_cutoff (paper # papers) =
     (case pub_bib paper of
        None \<Rightarrow> filter_by_year current_year year_cutoff papers
      | Some b \<Rightarrow>
          bind_err (paper_year current_year b) (\<lambda>y.
          bind_err (filter_by_year current_year year_cutoff papers) (\<lambda>kept.
            Inr (if y \<ge> year_cutoff then paper # kept else kept))))"

definition papers_subset ::
  "int \<Rightarrow> int option \<Rightarrow> publication list \<Rightarrow> py_error + publication list" where
  "papers_subset current_year year_cutoff papers =
     (case year_cutoff of
        None \<Rightarrow> Inr papers
      | Some c \<Rightarrow> if c \<noteq> 0 then filter_by_year current_year c papers else Inr papers)"

text \<open>Lines 129 to 134: the author strings of the filled papers, split on \<open>and\<close>.\<close>

fun fetch_coauthors ::
  "(publication \<Rightarrow> py_error + publication) \<Rightarrow> publication list \<Rightarrow> py_error + string list" where
  "fetch_coauthors fill [] = Inr []"
| "fetch_coauthors fill (paper # papers) =
     bind_err (fill paper) (\<lambda>paper_full.
       case pub_bib paper_full of
         None \<Rightarrow> Inl KeyError
       | Some b \<Rightarrow>
           (case bib_author b of
              None \<Rightarrow> Inl KeyError
            | Some authors \<Rightarrow>
                bind_err (fetch_coauthors fill papers) (\<lambda>more.
                  Inr (split_str '' and '' authors @ more))))"

section \<open>The name de-duplication loop of \<^verbatim>\<open>_get_coauthors_from_pubs\<close>\<close>

text \<open>
  Lines 143 to 155. The loop keeps the set \<open>seen\<close> of (last name, first name) pairs and
  the list \<open>unique\<close>. The tuple assignment
  \<^verbatim>\<open>last_name, first_name = coauthor.split(", ")\<close> raises \<^verbatim>\<open>ValueError\<close> unless the
  split has exactly two parts. \<^verbatim>\<open>list.remove\<close> deletes the first occurrence.
\<close>

fun dedup_loop ::
  "string list \<Rightarrow> (string \<times> string) set \<Rightarrow> string list \<Rightarrow> py_error + string list" where
  "dedup_loop [] seen unique_coauthors = Inr unique_coauthors"
| "dedup_loop (coauthor # rest) seen unique_coauthors =
     (case split_str '', '' coauthor of
        [last_name, first_middle] \<Rightarrow>
          (let first_name = hd (split_str '' '' first_middle) in
           if (last_name, first_name) \<notin> seen
           then dedup_loop rest (insert (last_name, first_name) seen)
                  (unique_coauthors @ [coauthor])
           else if first_middle \<noteq> first_name
           then (if last_name @ '', '' @ first_name \<in> set unique_coauthors
                 then dedup_loop rest seen
                        (remove1 (last_name @ '', '' @ first_name) unique_coauthors
                           @ [coauthor])
                 else dedup_loop rest seen unique_coauthors)
           else dedup_loop rest seen unique_coauthors)
      | _ \<Rightarrow> Inl ValueError)"

definition dedup :: "string list \<Rightarrow> py_error + string list" where
  "dedup all_coauthors = dedup_loop all_coauthors {} []"

text \<open>
  The pair under which the loop files a name whose split has two parts (lines 146 and
  147): the last name, and the first token of what follows the comma.
\<close>

definition person_key :: "string \<Rightarrow> string \<times> string" where
  "person_key coauthor =
     (hd (split_str '', '' coauthor),
      hd (split_str '' '' (hd (tl (split_str '', '' coauthor)))))"

text \<open>Lines 140 to 157: the names up to and including the de-duplication.\<close>

definition dedup_stage ::
  "world \<Rightarrow> publication list \<Rightarrow> int option \<Rightarrow> py_error + string list" where
  "dedup_stage w papers year_cutoff =
     bind_err (papers_subset (today_year w) year_cutoff papers) (\<lambda>subset.
     bind_err (fetch_coauthors (fill_publication w) subset) (\<lambda>all_coauthors.
     bind_err (nsf_name_cleanup (set_order w all_coauthors)) dedup))"

text \<open>Lines 158 to 159: \<^verbatim>\<open>my_name\<close> is removed when it is not empty and is in the list.\<close>

definition remove_self :: "string option \<Rightarrow> string list \<Rightarrow> string list" where
  "remove_self my_name all_coauthors =
     (case my_name of
        None \<Rightarrow> all_coauthors
      | Some n \<Rightarrow>
          if n \<noteq> [] \<and> n \<in> set all_coauthors then remove1 n all_coauthors else all_coauthors)"

text \<open>Lines 167 to 173: one look-up for each name, in the order of the list.\<close>

fun lookup_affiliations ::
  "(nat \<Rightarrow> author_search) \<Rightarrow> nat \<Rightarrow> string list \<Rightarrow> py_error + string list" where
  "lookup_affiliations search k [] = Inr []"
| "lookup_affiliations search k (coauthor # rest) =
     (case get_scholar_info (search k) coauthor of
        Inl e \<Rightarrow> Inl (Upstream e)
      | Inr affiliation \<Rightarrow>
          bind_err (lookup_affiliations search (Suc k) rest) (\<lambda>affiliations.
            Inr (affiliation # affiliations)))"

text \<open>
  Lines 157 to 179. \<^verbatim>\<open>list.sort\<close> on strings orders them by code point, the shorter of
  two strings first when it is a prefix of the other: the order of \<open>sort\<close> on \<open>string\<close>.
\<close>

definition get_coauthors_from_pubs ::
  "world \<Rightarrow> publication list \<Rightarrow> int option \<Rightarrow> string option
     \<Rightarrow> py_error + string list \<times> string list" where
  "get_coauthors_from_pubs w papers year_cutoff my_name =
     bind_err (dedup_stage w papers year_cutoff) (\<lambda>unique_coauthors.
       let all_coauthors = sort (remove_self my_name unique_coauthors) in
       bind_err (lookup_affiliations (search_author w) 0 all_coauthors) (\<lambda>affiliations.
       bind_err (nsf_affiliation_cleanup affiliations) (\<lambda>cleaned.
         Inr (all_coauthors, cleaned))))"

section \<open>\<^verbatim>\<open>_dump_to_csv\<close> and \<^verbatim>\<open>get_coauthors\<close>\<close>

definition dq :: char where
  "dq = CHR 0x22"

definition nl :: char where
  "nl = CHR 0x0A"

definition quoted :: "string \<Rightarrow> string" where
  "quoted s = [dq] @ s @ [dq]"

text \<open>
  Lines 276 to 278. The loop runs over the indices of \<open>co_authors\<close>; at each index it
  first replaces the name by the quoted name in the list itself, then writes one string.
  It returns the list as it has become and the strings written, in order. Reading
  \<^verbatim>\<open>affiliations[i]\<close> past the end raises \<^verbatim>\<open>IndexError\<close>.
\<close>

definition csv_line :: "string \<Rightarrow> string \<Rightarrow> string" where
  "csv_line quoted_name affiliation =
     '' '' @ quoted_name @ '','' @ [dq] @ affiliation @ [dq] @ '' '' @ [nl]"

fun dump_loop :: "string list \<Rightarrow> string list \<Rightarrow> py_error + string list \<times> string list" where
  "dump_loop [] affiliations = Inr ([], [])"
| "dump_loop (co_author # co_authors) [] = Inl IndexError"
| "dump_loop (co_author # co_authors) (affiliation # affiliations) =
     bind_err (dump_loop co_authors affiliations) (\<lambda>(rewritten, written).
       Inr (quoted co_author # rewritten,
            csv_line (quoted co_author) affiliation # written))"

definition dump_to_csv ::
  "world \<Rightarrow> string list \<Rightarrow> string list \<Rightarrow> path_arg
     \<Rightarrow> py_error + string list \<times> string list" where
  "dump_to_csv w co_authors affiliations filename =
     (case open_file w filename of
        Some e \<Rightarrow> Inl e
      | None \<Rightarrow> dump_loop co_authors affiliations)"

text \<open>Truth value of the \<^verbatim>\<open>filename\<close> argument: an empty \<^verbatim>\<open>str\<close> is false, a \<^verbatim>\<open>Path\<close> is true.\<close>

fun path_truthy :: "path_arg \<Rightarrow> bool" where
  "path_truthy (PathStr s) = (s \<noteq> [])"
| "path_truthy (PathObj s) = True"

text \<open>
  Lines 52 to 63. The list returned is the list object handed to \<^verbatim>\<open>_dump_to_csv\<close>, so
  it is returned as that function has left it.
\<close>

definition get_coauthors ::
  "world \<Rightarrow> string \<Rightarrow> int option \<Rightarrow> path_arg option \<Rightarrow> py_error + string list" where
  "get_coauthors w scholar_id years_back filename =
     (let year_cutoff =
            (case years_back of
               None \<Rightarrow> None
             | Some n \<Rightarrow> if n \<noteq> 0 then Some (today_year w - n) else None)
      in bind_err (scholar_profile_of w scholar_id) (\<lambda>profile.
         bind_err (get_coauthors_from_pubs w
                     (case profile_publications profile of None \<Rightarrow> [] | Some ps \<Rightarrow> ps)
                     year_cutoff
                     (Some (case profile_name profile of None \<Rightarrow> [] | Some n \<Rightarrow> n)))
           (\<lambda>(co_authors, affiliations).
              case filename of
                None \<Rightarrow> Inr co_authors
              | Some f \<Rightarrow>
                  if path_truthy f
                  then bind_err (dump_to_csv w co_authors affiliations f)
                         (\<lambda>(rewritten, written). Inr rewritten)
                  else Inr co_authors)))"

section \<open>Example data\<close>

text \<open>
  A small profile on which the functions are run: three papers (one from 2018, one from
  2024, one with no year), an author search that fails for two of the names, and a set
  order that keeps the last occurrence of each name.
\<close>

definition paper_of :: "int option \<Rightarrow> string \<Rightarrow> publication" where
  "paper_of year authors =
     \<lparr>pub_bib = Some \<lparr>bib_pub_year = map_option Inr year, bib_author = Some authors\<rparr>\<rparr>"

definition demo_papers :: "publication list" where
  "demo_papers =
     [paper_of (Some 2018) ''Old Author and Jane Doe'',
      paper_of (Some 2024) ''Jane Doe and John Smith and Bob Adams'',
      paper_of None ''John A Smith and Jane Doe and Ann Lee'']"

definition demo_search :: author_search where
  "demo_search name =
     (if name = ''Adams, Bob'' then Inl StopIteration
      else if name = ''Smith, John A'' then Inl (OtherException ''timed out'')
      else Inr \<lparr>author_affiliation = Some ''Associate Professor at Example University''\<rparr>)"

definition demo_world :: world where
  "demo_world =
     \<lparr>today_year = 2026,
      scholar_profile_of =
        (\<lambda>scholar_id. Inr \<lparr>profile_publications = Some demo_papers,
                             profile_name = Some ''Doe, Jane''\<rparr>),
      fill_publication = Inr,
      set_order = remdups,
      search_author = (\<lambda>k. demo_search),
      open_file = (\<lambda>filename. None)\<rparr>"

text \<open>
  Two more author searches, each failing for the name \<open>Lee, Ann\<close> with an exception
  other than \<^verbatim>\<open>StopIteration\<close>: one whose message holds a title word and an \<open>@\<close>
  with no space after it, one whose message holds a title word only.
\<close>

definition refused_search :: author_search where
  "refused_search name =
     (if name = ''Lee, Ann'' then Inl (OtherException ''proxy scholar@host refused'')
      else demo_search name)"

definition refused_world :: world where
  "refused_world = demo_world\<lparr>search_author := (\<lambda>k. refused_search)\<rparr>"

definition blocked_search :: author_search where
  "blocked_search name =
     (if name = ''Lee, Ann'' then Inl (OtherException ''Cannot Fetch from Google Scholar.'')
      else demo_search name)"

definition blocked_world :: world where
  "blocked_world = demo_world\<lparr>search_author := (\<lambda>k. blocked_search)\<rparr>"

section \<open>Facts about \<open>split_str\<close>, \<open>join\<close> and \<open>contains\<close>\<close>

lemma split_str_not_Nil: "split_str sep s \<noteq> []"
  by (induction sep s rule: split_str.induct) (auto split: list.splits)

lemma join_Cons: "join sep (p # ps) = (if ps = [] then p else p @ sep @ join sep ps)"
  by (cases ps) auto

lemma join_split_str: "join sep (split_str sep s) = s"
proof (induction sep s rule: split_str.induct)
  case (1 sep)
  show ?case by simp
next
  case (2 sep c cs)
  show ?case
  proof (cases "sep \<noteq> [] \<and> prefix sep (c # cs)")
    case True
    then obtain r where r: "c # cs = sep @ r" by (auto simp: prefix_def)
    with True have d: "drop (length sep - 1) cs = r"
      by (cases sep) auto
    from True have s: "split_str sep (c # cs) = [] # split_str sep (drop (length sep - 1) cs)"
      by simp
    from 2(1) True have "join sep (split_str sep (drop (length sep - 1) cs)) = drop (length sep - 1) cs"
      by simp
    with d r show ?thesis
      unfolding s using split_str_not_Nil[of sep r] by (simp add: join_Cons)
  next
    case False
    with 2(2) have ih: "join sep (split_str sep cs) = cs" by simp
    obtain p ps where pp: "split_str sep cs = p # ps"
      using split_str_not_Nil[of sep cs] by (cases "split_str sep cs") auto
    with ih False show ?thesis by (auto simp: join_Cons split: if_splits)
  qed
qed

lemma hd_split_prefix: "split_str sep s = p # ps \<Longrightarrow> prefix p s"
  using join_split_str[of sep s] by (auto simp: join_Cons prefix_def split: if_splits)

lemma prefix_append_long: "length sep \<le> length xs \<Longrightarrow> prefix sep (xs @ t) = prefix sep xs"
  using prefix_length_prefix[of sep "xs @ t" xs] by auto

lemma contains_set: "contains sub s \<Longrightarrow> set sub \<subseteq> set s"
proof (induction s)
  case Nil
  then show ?case by simp
next
  case (Cons a s)
  then show ?case using set_mono_prefix[of sub "a # s"] by auto
qed

lemma contains_single: "contains [x] s = (x \<in> set s)"
  by (induction s) auto

lemma split_no_sep: "\<not> contains sep s \<Longrightarrow> split_str sep s = [s]"
  by (induction sep s rule: split_str.induct) (auto split: list.splits)

lemma split_first:
  assumes "sep \<noteq> []" "\<not> contains sep (a @ butlast sep)"
  shows "split_str sep (a @ sep @ b) = a # split_str sep b"
  using assms(2)
proof (induction a)
  case Nil
  from assms(1) obtain x xs where sep: "sep = x # xs" by (cases sep) auto
  then show ?case by simp
next
  case (Cons c a)
  from Cons.prems have np: "\<not> prefix sep (c # a @ butlast sep)"
    and nc: "\<not> contains sep (a @ butlast sep)" by auto
  have "length sep \<le> length (c # a @ butlast sep)" by simp
  from prefix_append_long[OF this, of "[last sep] @ b"] assms(1) np
  have "\<not> prefix sep (c # a @ sep @ b)"
    by (metis append.assoc append_Cons append_butlast_last_id)
  with Cons.IH[OF nc] show ?case by simp
qed

lemma split_parts_no_sep:
  "sep \<noteq> [] \<Longrightarrow> p \<in> set (split_str sep s) \<Longrightarrow> \<not> contains sep p"
proof (induction sep s arbitrary: p rule: split_str.induct)
  case (1 sep)
  then show ?case by simp
next
  case (2 sep c cs)
  show ?case
  proof (cases "sep \<noteq> [] \<and> prefix sep (c # cs)")
    case True
    with 2(1)[OF True] 2(3,4) show ?thesis by auto
  next
    case False
    obtain q qs where qq: "split_str sep cs = q # qs"
      using split_str_not_Nil[of sep cs] by (cases "split_str sep cs") auto
    from False 2(4) qq have "p = c # q \<or> p \<in> set qs" by (auto split: if_splits)
    then show ?thesis
    proof
      assume p: "p = c # q"
      from 2(2)[OF False 2(3), of q] qq have nq: "\<not> contains sep q" by simp
      from hd_split_prefix[OF qq] have "prefix (c # q) (c # cs)" by simp
      then have "prefix sep (c # q) \<Longrightarrow> prefix sep (c # cs)"
        using prefix_order.trans by blast
      with False 2(3) nq p show ?thesis by auto
    next
      assume "p \<in> set qs"
      with 2(2)[OF False 2(3), of p] qq show ?thesis by simp
    qed
  qed
qed

lemma contains_append_left: "contains sub s \<Longrightarrow> contains sub (s @ t)"
proof (induction s)
  case Nil
  then show ?case by (cases t) auto
next
  case (Cons a s)
  have "prefix sub (a # s) \<Longrightarrow> prefix sub ((a # s) @ t)" by (rule prefix_prefix)
  with Cons show ?case by auto
qed

lemma split_join_id:
  "sep \<noteq> [] \<Longrightarrow> ts \<noteq> [] \<Longrightarrow> \<forall>t\<in>set ts. \<not> contains sep (t @ butlast sep)
    \<Longrightarrow> split_str sep (join sep ts) = ts"
proof (induction sep ts rule: join.induct)
  case (1 sep)
  then show ?case by simp
next
  case (2 sep p)
  then have "\<not> contains sep p" using contains_append_left by auto
  then show ?case by (simp add: split_no_sep)
next
  case (3 sep p q ps)
  then show ?case by (simp add: split_first)
qed


lemma index1_eq: "index1 xs = (if 2 \<le> length xs then Inr (xs ! 1) else Inl IndexError)"
  by (cases xs rule: index1.cases) auto

lemma tokens_no_space:
  "t \<in> set (split_str '' '' s) \<Longrightarrow> CHR '' '' \<notin> set t"
  using split_parts_no_sep[of "'' ''" t s] by (simp add: contains_single)

lemma no_space_no_comma_space: "CHR '' '' \<notin> set t \<Longrightarrow> \<not> contains '', '' t"
  using contains_set[of "'', ''" t] by auto

lemma split_comma_reordered:
  assumes "CHR '' '' \<notin> set l"
  shows "split_str '', '' (l @ '', '' @ r) = l # split_str '', '' r"
proof -
  have "CHR '' '' \<notin> set (l @ butlast '', '')" using assms by simp
  then have "\<not> contains '', '' (l @ butlast '', '')" by (rule no_space_no_comma_space)
  then show ?thesis by (intro split_first) simp_all
qed

lemma nsf_name_cleanup1_two:
  assumes "length (split_str '' '' raw) = 2"
  shows "nsf_name_cleanup1 raw =
    Inr (split_str '' '' raw ! 1 @ '', '' @ split_str '' '' raw ! 0)"
proof -
  from assms obtain a b where ab: "split_str '' '' raw = [a, b]"
    by (cases "split_str '' '' raw" rule: index1.cases) auto
  then show ?thesis by (simp add: nsf_name_cleanup1_def)
qed

lemma nsf_name_cleanup1_many:
  assumes ts: "ts = split_str '' '' raw" and len: "2 < length ts"
    and nc: "\<not> contains '', '' (join '' '' (butlast ts))"
  shows "nsf_name_cleanup1 raw =
    (if length (ts ! 0) < 2 then Inr (last ts @ '', '' @ ts ! 1 @ '' '' @ ts ! 0)
     else Inr (last ts @ '', '' @ join '' '' (butlast ts)))"
proof -
  from len have ne1: "ts \<noteq> []" by auto
  have ne2: "butlast ts \<noteq> []"
  proof
    assume "butlast ts = []"
    then have "length (butlast ts) = 0" by (simp only: list.size)
    with len show False by simp
  qed
  note ne = ne1 ne2
  have tok: "\<And>t. t \<in> set ts \<Longrightarrow> CHR '' '' \<notin> set t"
    using tokens_no_space ts by blast
  from ne tok have l: "CHR '' '' \<notin> set (last ts)" by simp
  have r: "split_str '', '' (last ts @ '', '' @ join '' '' (butlast ts))
           = [last ts, join '' '' (butlast ts)]"
    using split_comma_reordered[OF l] split_no_sep[OF nc] by simp
  have "\<forall>t\<in>set (butlast ts). \<not> contains '' '' (t @ butlast '' '')"
    using tok in_set_butlastD by (fastforce simp: contains_single)
  with ne have b: "split_str '' '' (join '' '' (butlast ts)) = butlast ts"
    by (intro split_join_id) simp_all
  from len have h: "hd (butlast ts) = ts ! 0"
    by (metis ne(2) hd_conv_nth nth_butlast length_greater_0_conv)
  from len have i: "index1 (butlast ts) = Inr (ts ! 1)"
    by (simp add: index1_eq nth_butlast)
  from len show ?thesis
    unfolding nsf_name_cleanup1_def ts[symmetric] Let_def
    by (simp add: r[simplified] b h i bind_err_def)
qed

lemma lower_char_at: "(lower_char c = CHR ''@'') = (c = CHR ''@'')"
proof
  assume h: "lower_char c = CHR ''@''"
  show "c = CHR ''@''"
  proof (cases "65 \<le> (of_char c :: nat) \<and> (of_char c :: nat) \<le> 90")
    case True
    with h have "char_of (of_char c + 32 :: nat) = CHR ''@''"
      by (simp add: lower_char_def Let_def)
    then have "(of_char (char_of (of_char c + 32 :: nat)) :: nat) = of_char (CHR ''@'')"
      by simp
    with True show ?thesis by (simp add: of_char_of)
  next
    case False
    with h show ?thesis by (auto simp add: lower_char_def Let_def)
  qed
next
  assume "c = CHR ''@''"
  then show "lower_char c = CHR ''@''" by (simp add: lower_char_def)
qed

lemma contains_at_lower: "contains ''@'' (lower a) = contains ''@'' a"
proof -
  have "(CHR ''@'' \<in> lower_char ` set a) = (CHR ''@'' \<in> set a)"
    using lower_char_at by (metis image_iff)
  then show ?thesis by (simp add: contains_single lower_def)
qed

lemma has_title_Nil: "\<not> has_title []"
  by (simp add: has_title_def title_words_def lower_def)

lemma filter_by_year_eq:
  assumes "\<forall>p\<in>set papers. \<forall>b e. pub_bib p = Some b \<longrightarrow> bib_pub_year b \<noteq> Some (Inl e)"
  shows "filter_by_year cy c papers =
    Inr (filter (\<lambda>p. case pub_bib p of
                        None \<Rightarrow> False
                      | Some b \<Rightarrow> (case bib_pub_year b of
                                     None \<Rightarrow> c \<le> cy
                                   | Some (Inr y) \<Rightarrow> c \<le> y
                                   | Some (Inl e) \<Rightarrow> False)) papers)"
  using assms
proof (induction papers)
  case Nil
  then show ?case by simp
next
  case (Cons p papers)
  then show ?case
    by (auto simp: bind_err_def paper_year_def split: option.splits sum.splits)
qed

lemma get_scholar_info_returns: "\<exists>affiliation. get_scholar_info search name = Inr affiliation"
  by (auto simp: get_scholar_info_def split: sum.splits upstream_exception.splits)

lemma lookup_affiliations_returns:
  "\<exists>affiliations. lookup_affiliations search k names = Inr affiliations \<and>
     length affiliations = length names \<and>
     (\<forall>i<length names. get_scholar_info (search (k + i)) (names ! i) = Inr (affiliations ! i))"
proof (induction names arbitrary: k)
  case Nil
  then show ?case by simp
next
  case (Cons n names)
  obtain a where a: "get_scholar_info (search k) n = Inr a"
    using get_scholar_info_returns by blast
  from Cons[of "Suc k"] obtain as where as: "lookup_affiliations search (Suc k) names = Inr as"
    "length as = length names"
    "\<forall>i<length names. get_scholar_info (search (Suc k + i)) (names ! i) = Inr (as ! i)"
    by blast
  have "\<forall>i<length (n # names). get_scholar_info (search (k + i)) ((n # names) ! i) = Inr ((a # as) ! i)"
  proof (intro allI impI)
    fix i assume "i < length (n # names)"
    then show "get_scholar_info (search (k + i)) ((n # names) ! i) = Inr ((a # as) ! i)"
      using a as(3) by (cases i) auto
  qed
  with a as(1,2) show ?case by (simp add: bind_err_def)
qed

lemma contains_length: "contains sub s \<Longrightarrow> length sub \<le> length s"
  by (induction s) (auto dest: prefix_length_le)

lemma first_part_clean:
  "sep \<noteq> [] \<Longrightarrow> split_str sep s = p # q # ps \<Longrightarrow> \<not> contains sep (p @ butlast sep)"
proof (induction sep s arbitrary: p rule: split_str.induct)
  case (1 sep)
  then show ?case by simp
next
  case (2 sep c cs)
  show ?case
  proof (cases "sep \<noteq> [] \<and> prefix sep (c # cs)")
    case True
    with 2(4) have "p = []" by simp
    moreover have "\<not> contains sep (butlast sep)"
    proof
      assume "contains sep (butlast sep)"
      then have "length sep \<le> length (butlast sep)" by (rule contains_length)
      moreover have "length (butlast sep) < length sep"
        using 2(3) by (cases sep rule: rev_cases) auto
      ultimately show False by linarith
    qed
    ultimately show ?thesis by simp
  next
    case False
    obtain p' where p': "split_str sep cs = p' # q # ps" "p = c # p'"
      using False 2(4) by (auto split: list.splits if_splits)
    from 2(2)[OF False 2(3) p'(1)] have ih: "\<not> contains sep (p' @ butlast sep)" .
    from join_split_str[of sep cs] p'(1) have cs: "cs = p' @ sep @ join sep (q # ps)"
      by simp
    have "\<not> prefix sep (c # p' @ butlast sep)"
    proof
      assume "prefix sep (c # p' @ butlast sep)"
      then have "prefix sep ((c # p' @ butlast sep) @ ([last sep] @ join sep (q # ps)))"
        by (rule prefix_prefix)
      moreover have "(c # p' @ butlast sep) @ ([last sep] @ join sep (q # ps)) = c # cs"
        using cs 2(3) by simp
      ultimately show False using False 2(3) by simp
    qed
    with ih p'(2) show ?thesis by simp
  qed
qed

lemma bare_name_key:
  assumes c: "split_str '', '' coauthor = [l, fm]" and f: "f = hd (split_str '' '' fm)"
  shows "split_str '', '' (l @ '', '' @ f) = [l, f]" and "person_key (l @ '', '' @ f) = (l, f)"
proof -
  have "f \<in> set (split_str '' '' fm)" using f split_str_not_Nil[of "'' ''" fm] by simp
  then have ns: "CHR '' '' \<notin> set f" by (rule tokens_no_space)
  then have sf: "split_str '', '' f = [f]"
    using no_space_no_comma_space split_no_sep by blast
  from ns have sf2: "split_str '' '' f = [f]"
    by (intro split_no_sep) (simp add: contains_single)
  have "\<not> contains '', '' (l @ butlast '', '')"
    using first_part_clean[OF _ c] by simp
  then have "split_str '', '' (l @ '', '' @ f) = l # split_str '', '' f"
    by (intro split_first) simp_all
  with sf show s: "split_str '', '' (l @ '', '' @ f) = [l, f]" by simp
  show "person_key (l @ '', '' @ f) = (l, f)"
    unfolding person_key_def s using sf2 by simp
qed

lemma in_remove1D: "y \<in> set (remove1 x xs) \<Longrightarrow> y \<in> set xs"
  using set_remove1_subset[of x xs] by auto

lemma distinct_map_remove1:
  "distinct (map f xs) \<Longrightarrow> distinct (map f (remove1 x xs))"
  by (induction xs) (auto dest: in_remove1D)

lemma key_notin_remove1:
  "distinct (map f xs) \<Longrightarrow> x \<in> set xs \<Longrightarrow> f x \<notin> f ` set (remove1 x xs)"
proof
  assume d: "distinct (map f xs)" and x: "x \<in> set xs"
    and "f x \<in> f ` set (remove1 x xs)"
  then obtain y where y: "y \<in> set (remove1 x xs)" "f y = f x" by auto
  from d have i: "inj_on f (set xs)" and dx: "distinct xs" by (simp_all add: distinct_map)
  from y(1) dx have "y \<in> set xs" "y \<noteq> x" by simp_all
  with i x y(2) show False by (auto dest: inj_onD)
qed

lemma dedup_loop_inv:
  assumes "dedup_loop names seen unique = Inr out"
    and "distinct (map person_key unique)"
    and "\<forall>n\<in>set unique. length (split_str '', '' n) = 2 \<and> person_key n \<in> seen"
  shows "distinct (map person_key out) \<and> (\<forall>n\<in>set out. length (split_str '', '' n) = 2)"
  using assms
proof (induction names arbitrary: seen unique)
  case Nil
  then show ?case by simp
next
  case (Cons c rest)
  from Cons.prems(1) obtain l fm where sp: "split_str '', '' c = [l, fm]"
    by (auto split: list.splits)
  define f where "f = hd (split_str '' '' fm)"
  have kc: "person_key c = (l, f)" by (simp add: person_key_def sp f_def)
  have lc: "length (split_str '', '' c) = 2" by (simp add: sp)
  note bk = bare_name_key[OF sp f_def]
  consider (new) "(l, f) \<notin> seen"
    | (richer) "(l, f) \<in> seen" "fm \<noteq> f" "l @ '', '' @ f \<in> set unique"
    | (skip) "(l, f) \<in> seen" "\<not> (fm \<noteq> f \<and> l @ '', '' @ f \<in> set unique)"
    by blast
  then show ?case
  proof cases
    case new
    with Cons.prems(1) sp have r: "dedup_loop rest (insert (l, f) seen) (unique @ [c]) = Inr out"
      by (simp add: f_def Let_def)
    have "person_key c \<notin> person_key ` set unique"
      using Cons.prems(3) new kc by auto
    with Cons.prems(2) have d: "distinct (map person_key (unique @ [c]))" by simp
    have "\<forall>n\<in>set (unique @ [c]). length (split_str '', '' n) = 2 \<and> person_key n \<in> insert (l, f) seen"
      using Cons.prems(3) kc lc by auto
    from Cons.IH[OF r d this] show ?thesis .
  next
    case richer
    let ?bare = "l @ '', '' @ f"
    from richer Cons.prems(1) sp
    have r: "dedup_loop rest seen (remove1 ?bare unique @ [c]) = Inr out"
      by (simp add: f_def Let_def)
    have "person_key c \<notin> person_key ` set (remove1 ?bare unique)"
      using key_notin_remove1[OF Cons.prems(2) richer(3)] bk(2) kc by simp
    with distinct_map_remove1[OF Cons.prems(2), of ?bare]
    have d: "distinct (map person_key (remove1 ?bare unique @ [c]))" by simp
    have "\<forall>n\<in>set (remove1 ?bare unique @ [c]). length (split_str '', '' n) = 2 \<and> person_key n \<in> seen"
      using Cons.prems(3) kc lc richer(1) by (auto dest: in_remove1D)
    from Cons.IH[OF r d this] show ?thesis .
  next
    case skip
    with Cons.prems(1) sp have r: "dedup_loop rest seen unique = Inr out"
      by (auto simp add: f_def Let_def split: if_splits)
    from Cons.IH[OF r Cons.prems(2,3)] show ?thesis .
  qed
qed

lemma dedup_distinct:
  assumes "dedup names = Inr out"
  shows "distinct out" and "\<forall>n\<in>set out. length (split_str '', '' n) = 2"
proof -
  from assms have "dedup_loop names {} [] = Inr out" by (simp add: dedup_def)
  from dedup_loop_inv[OF this] have "distinct (map person_key out)"
    and p: "\<forall>n\<in>set out. length (split_str '', '' n) = 2" by simp_all
  then show "distinct out" by (simp add: distinct_map)
  from p show "\<forall>n\<in>set out. length (split_str '', '' n) = 2" .
qed

lemma bind_err_Inr: "bind_err m f = Inr y \<Longrightarrow> \<exists>x. m = Inr x \<and> f x = Inr y"
  by (cases m) (auto simp: bind_err_def)

lemma dedup_stage_distinct:
  assumes "dedup_stage w papers cutoff = Inr unique"
  shows "distinct unique" and "[] \<notin> set unique"
proof -
  from assms obtain names where d: "dedup names = Inr unique"
    unfolding dedup_stage_def by (auto dest!: bind_err_Inr)
  from dedup_distinct[OF d] show "distinct unique" by simp
  from dedup_distinct(2)[OF d] show "[] \<notin> set unique" by auto
qed

lemma nsf_affiliation_cleanup_nth:
  "nsf_affiliation_cleanup raw = Inr cleaned \<Longrightarrow>
   length cleaned = length raw \<and>
   (\<forall>i<length raw. nsf_affiliation_cleanup1 (raw ! i) = Inr (cleaned ! i))"
proof (induction raw arbitrary: cleaned)
  case Nil
  then show ?case by simp
next
  case (Cons a raw)
  from Cons.prems obtain c cs where c: "nsf_affiliation_cleanup1 a = Inr c"
    and cs: "nsf_affiliation_cleanup raw = Inr cs" and e: "cleaned = c # cs"
    by (auto dest!: bind_err_Inr)
  from Cons.IH[OF cs] c e show ?case by (auto simp: nth_Cons split: nat.splits)
qed

lemma get_coauthors_from_pubs_Inr:
  assumes "get_coauthors_from_pubs w papers cutoff my_name = Inr (names, affs)"
  shows "\<exists>unique raw. dedup_stage w papers cutoff = Inr unique \<and>
     names = sort (remove_self my_name unique) \<and>
     lookup_affiliations (search_author w) 0 names = Inr raw \<and>
     nsf_affiliation_cleanup raw = Inr affs"
  using assms unfolding get_coauthors_from_pubs_def Let_def
  by (auto dest!: bind_err_Inr)

lemma get_coauthors_from_pubs_length:
  assumes "get_coauthors_from_pubs w papers cutoff my_name = Inr (names, affs)"
  shows "length affs = length names"
proof -
  from get_coauthors_from_pubs_Inr[OF assms] obtain raw where
    l: "lookup_affiliations (search_author w) 0 names = Inr raw"
    and c: "nsf_affiliation_cleanup raw = Inr affs" by blast
  from lookup_affiliations_returns[of "search_author w" 0 names] l
  have "length raw = length names" by auto
  with nsf_affiliation_cleanup_nth[OF c] show ?thesis by simp
qed

lemma dump_loop_eq:
  "length affiliations = length co_authors \<Longrightarrow>
   dump_loop co_authors affiliations =
     Inr (map quoted co_authors,
          map2 (\<lambda>n a. '' '' @ quoted n @ '','' @ quoted a @ '' '' @ [nl])
            co_authors affiliations)"
proof (induction co_authors affiliations rule: dump_loop.induct)
  case (1 affiliations)
  then show ?case by simp
next
  case (2 co_author co_authors)
  then show ?case by simp
next
  case (3 co_author co_authors affiliation affiliations)
  then show ?case by (simp add: bind_err_def csv_line_def quoted_def)
qed

text \<open>
  The general form of the preference of the loop: for a last name and a first name
  without spaces, the name with a further part after the first name replaces the bare
  name, in either order.
\<close>

lemma dedup_richer_variant_wins:
  assumes l: "CHR '' '' \<notin> set l" and f: "CHR '' '' \<notin> set f"
    and m: "\<not> contains '', '' (f @ '' '' @ m)"
  shows "dedup [l @ '', '' @ f, l @ '', '' @ f @ '' '' @ m] = Inr [l @ '', '' @ f @ '' '' @ m]"
    and "dedup [l @ '', '' @ f @ '' '' @ m, l @ '', '' @ f] = Inr [l @ '', '' @ f @ '' '' @ m]"
proof -
  have sb: "split_str '', '' (l @ '', '' @ f) = [l, f]"
    using split_comma_reordered[OF l, of f] split_no_sep[OF no_space_no_comma_space[OF f]]
    by simp
  have sr: "split_str '', '' (l @ '', '' @ f @ '' '' @ m) = [l, f @ '' '' @ m]"
    using split_comma_reordered[OF l, of "f @ '' '' @ m"] split_no_sep[OF m] by simp
  have hf: "hd (split_str '' '' f) = f"
    using split_no_sep[of "'' ''" f] f by (simp add: contains_single)
  have "split_str '' '' (f @ '' '' @ m) = f # split_str '' '' m"
    using f by (intro split_first) (simp_all add: contains_single)
  then have hr: "hd (split_str '' '' (f @ '' '' @ m)) = f" by simp
  have ne: "f @ '' '' @ m \<noteq> f" by simp
  show "dedup [l @ '', '' @ f, l @ '', '' @ f @ '' '' @ m] = Inr [l @ '', '' @ f @ '' '' @ m]"
    unfolding dedup_def dedup_loop.simps sb sr list.case Let_def hf hr
    using ne by simp
  show "dedup [l @ '', '' @ f @ '' '' @ m, l @ '', '' @ f] = Inr [l @ '', '' @ f @ '' '' @ m]"
    unfolding dedup_def dedup_loop.simps sb sr list.case Let_def hf hr
    using ne by simp
qed

text \<open>
  The look-up on its own always returns a string: the empty string when the search is
  exhausted, \<open>An error occurred:\<close> with the message for another exception; and the
  loop over the names returns one string for each name.
\<close>

theorem get_scholar_info_handlers:
  "(search name = Inl StopIteration \<longrightarrow> get_scholar_info search name = Inr []) \<and>
   (search name = Inl (OtherException msg) \<longrightarrow>
      get_scholar_info search name = Inr (''An error occurred: '' @ msg)) \<and>
   (\<exists>affiliation. get_scholar_info search name = Inr affiliation) \<and>
   (\<exists>affiliations. lookup_affiliations searches k names = Inr affiliations \<and>
      length affiliations = length names \<and>
      (\<forall>i<length names.
         get_scholar_info (searches (k + i)) (names ! i) = Inr (affiliations ! i)))"
  using get_scholar_info_returns[of search name] lookup_affiliations_returns[of searches k names]
  by (simp add: get_scholar_info_def search_first_def)

theorem get_scholar_info_handlers_example:
  "get_scholar_info demo_search ''Adams, Bob'' = Inr [] \<and>
   get_scholar_info demo_search ''Smith, John A'' = Inr ''An error occurred: timed out'' \<and>
   lookup_affiliations (\<lambda>k. demo_search) 0 [''Adams, Bob'', ''Lee, Ann'', ''Smith, John A'']
     = Inr [[], ''Associate Professor at Example University'', ''An error occurred: timed out'']"
proof -
  have a: "demo_search ''Adams, Bob'' = Inl StopIteration" by (simp add: demo_search_def)
  have b: "demo_search ''Smith, John A'' = Inl (OtherException ''timed out'')"
    by (simp add: demo_search_def)
  have 1: "get_scholar_info demo_search ''Adams, Bob'' = Inr []"
    by (rule get_scholar_info_handlers[of demo_search "''Adams, Bob''", THEN conjunct1, THEN mp, OF a])
  have 2: "get_scholar_info demo_search ''Smith, John A'' = Inr (''An error occurred: '' @ ''timed out'')"
    by (rule get_scholar_info_handlers[of demo_search "''Smith, John A''" "''timed out''",
          THEN conjunct2, THEN conjunct1, THEN mp, OF b])
  have 3: "get_scholar_info demo_search ''Lee, Ann'' = Inr ''Associate Professor at Example University''"
    by (simp add: get_scholar_info_def search_first_def demo_search_def)
  have 4: "lookup_affiliations (\<lambda>k. demo_search) 0 [''Adams, Bob'', ''Lee, Ann'', ''Smith, John A'']
     = Inr [[], ''Associate Professor at Example University'', ''An error occurred: timed out'']"
    by (simp add: 1 2 3 bind_err_def)
  from 1 2 4 show ?thesis by simp
qed

section \<open>The claims\<close>

text \<open>
  C1. De-duplicating the two canonical names \<open>Smith, John\<close> and \<open>Smith, John A\<close> gives
  exactly the list holding \<open>Smith, John A\<close>, whichever of the two the loop meets first.
\<close>

theorem dedup_prefers_middle_initial:
  "dedup [''Smith, John'', ''Smith, John A''] = Inr [''Smith, John A''] \<and>
   dedup [''Smith, John A'', ''Smith, John''] = Inr [''Smith, John A'']"
  by (simp add: dedup_def)

text \<open>
  C2. The claim: a raw name of more than two tokens whose first token has two characters
  or more keeps its tokens in order after the last token, a comma and a space; with a
  first token of fewer than two characters the second and first tokens follow the last
  token. The code does not read the tokens before the last from \<open>name_parts\<close>: it
  cuts the reordered name again at each comma followed by a space (line 202), so a comma
  at the end of a token changes what it finds. The raw name \<open>A, B C\<close> has three tokens
  and its first token \<open>A,\<close> has two characters, so the claim gives \<open>C, A, B\<close>; the
  code finds the one-character part \<open>A\<close>, and \<^verbatim>\<open>notlastname[1]\<close> raises
  \<^verbatim>\<open>IndexError\<close>. For \<open>M A, B Smith\<close> the claim gives \<open>Smith, A, M\<close>; the
  code returns \<open>Smith, A M\<close>.
\<close>

theorem nsf_name_cleanup1_comma_raises:
  "split_str '' '' ''A, B C'' = [''A,'', ''B'', ''C''] \<and>
   nsf_name_cleanup1 ''A, B C'' = Inl IndexError \<and>
   split_str '' '' ''M A, B Smith'' = [''M'', ''A,'', ''B'', ''Smith''] \<and>
   nsf_name_cleanup1 ''M A, B Smith'' = Inr ''Smith, A M''"
  by (simp add: nsf_name_cleanup1_def bind_err_def)

text \<open>
  C3. The claim: when the affiliation has a title word and contains \<open>at\<close> between
  spaces, the result is everything after the first such \<open>at\<close>, also when there are
  several. The code takes element 1 of the split, which ends at the second occurrence:
  for \<open>Professor at University at Buffalo\<close> it returns \<open>University\<close>, not
  \<open>University at Buffalo\<close>.
\<close>

theorem affiliation_at_twice:
  "has_title ''Professor at University at Buffalo'' \<and>
   contains '' at '' (lower ''Professor at University at Buffalo'') \<and>
   nsf_affiliation_cleanup1 ''Professor at University at Buffalo'' = Inr ''University''"
  by code_simp

text \<open>
  C4. The empty affiliation gives the empty string. An affiliation with no title word is
  returned as it is. An affiliation with a title word, without \<open>at\<close> between spaces in
  its lower-case form and without \<open>@\<close>, is cut at each comma followed by a space: with
  more than two parts the result is the parts after the first joined again, with two
  parts the second part, with one part the empty string.
\<close>

theorem affiliation_comma_rule:
  "nsf_affiliation_cleanup1 [] = Inr [] \<and>
   (\<not> has_title a \<longrightarrow> nsf_affiliation_cleanup1 a = Inr a) \<and>
   (has_title a \<and> \<not> contains '' at '' (lower a) \<and> \<not> contains ''@'' a \<longrightarrow>
      nsf_affiliation_cleanup1 a =
        (let parts = split_str '', '' a in
         if length parts > 2 then Inr (join '', '' (tl parts))
         else if length parts = 2 then Inr (parts ! 1)
         else Inr []))"
proof (intro conjI impI)
  show "nsf_affiliation_cleanup1 [] = Inr []"
    by (simp add: nsf_affiliation_cleanup1_def)
next
  assume "\<not> has_title a"
  then show "nsf_affiliation_cleanup1 a = Inr a"
    by (simp add: nsf_affiliation_cleanup1_def)
next
  assume h: "has_title a \<and> \<not> contains '' at '' (lower a) \<and> \<not> contains ''@'' a"
  then have "a \<noteq> []" using has_title_Nil by auto
  with h show "nsf_affiliation_cleanup1 a =
        (let parts = split_str '', '' a in
         if length parts > 2 then Inr (join '', '' (tl parts))
         else if length parts = 2 then Inr (parts ! 1)
         else Inr [])"
    unfolding nsf_affiliation_cleanup1_def Let_def
    by (simp add: contains_at_lower index1_eq)
qed

theorem affiliation_comma_rule_witness:
  "nsf_affiliation_cleanup1 ''Example University'' = Inr ''Example University'' \<and>
   nsf_affiliation_cleanup1 ''PhD student, Dept of X, Example University''
     = Inr ''Dept of X, Example University'' \<and>
   nsf_affiliation_cleanup1 ''PhD Student, Example University'' = Inr ''Example University'' \<and>
   nsf_affiliation_cleanup1 ''PhD Student'' = Inr []"
proof -
  have a: "\<not> has_title ''Example University''" by code_simp
  have b: "has_title ''PhD student, Dept of X, Example University'' \<and>
     \<not> contains '' at '' (lower ''PhD student, Dept of X, Example University'') \<and>
     \<not> contains ''@'' ''PhD student, Dept of X, Example University''" by code_simp
  have c: "has_title ''PhD Student, Example University'' \<and>
     \<not> contains '' at '' (lower ''PhD Student, Example University'') \<and>
     \<not> contains ''@'' ''PhD Student, Example University''" by code_simp
  have d: "has_title ''PhD Student'' \<and>
     \<not> contains '' at '' (lower ''PhD Student'') \<and>
     \<not> contains ''@'' ''PhD Student''" by code_simp
  show ?thesis
    using a b c d affiliation_comma_rule[of "''Example University''"]
      affiliation_comma_rule[of "''PhD student, Dept of X, Example University''"]
      affiliation_comma_rule[of "''PhD Student, Example University''"]
      affiliation_comma_rule[of "''PhD Student''"]
    by simp
qed

text \<open>
  C5, as amended. With no cutoff, or the cutoff 0, every paper is kept. With a cutoff
  other than 0, and no year on which \<^verbatim>\<open>int\<close> raises, the papers kept are, in their
  order, those that have a \<^verbatim>\<open>bib\<close> entry and whose year is at least the cutoff, the
  year of a paper without \<^verbatim>\<open>pub_year\<close> being the current year: such a paper is kept
  exactly when the cutoff is not after the current year.
\<close>

theorem year_filter:
  "papers_subset cy None papers = Inr papers \<and>
   papers_subset cy (Some 0) papers = Inr papers \<and>
   (c \<noteq> 0 \<and> (\<forall>p\<in>set papers. \<forall>b e. pub_bib p = Some b \<longrightarrow> bib_pub_year b \<noteq> Some (Inl e)) \<longrightarrow>
      papers_subset cy (Some c) papers =
        Inr (filter (\<lambda>p. case pub_bib p of
                        None \<Rightarrow> False
                      | Some b \<Rightarrow> (case bib_pub_year b of
                                     None \<Rightarrow> c \<le> cy
                                   | Some (Inr y) \<Rightarrow> c \<le> y
                                   | Some (Inl e) \<Rightarrow> False)) papers))"
  using filter_by_year_eq[of papers cy c] by (simp add: papers_subset_def)

theorem year_filter_witness:
  "papers_subset 2026 (Some 2022)
     [paper_of (Some 2018) ''A B'', paper_of (Some 2022) ''C D'', paper_of None ''E F'',
      \<lparr>pub_bib = None\<rparr>]
   = Inr [paper_of (Some 2022) ''C D'', paper_of None ''E F'']"
  using year_filter[of 2026 "[paper_of (Some 2018) ''A B'', paper_of (Some 2022) ''C D'',
      paper_of None ''E F'', \<lparr>pub_bib = None\<rparr>]" 2022]
  by (simp add: paper_of_def)

text \<open>
  C5 as stated fails: a paper without a year is not always kept. With the current year
  2026 and the cutoff 2027 the paper counts as one of 2026 and is filtered out.
\<close>

theorem year_filter_missing_year_counterexample:
  "papers_subset 2026 (Some 2027) [paper_of None ''E F''] = Inr []"
  by (simp add: papers_subset_def paper_of_def paper_year_def bind_err_def)

text \<open>
  C7. The claim: a look-up that fails returns the empty string or \<open>An error occurred:\<close>
  with the message, that string is stored as the affiliation, and a failed look-up never
  aborts the batch. The look-up does return the string, but the extractor then passes
  every affiliation through \<open>nsf_affiliation_cleanup\<close> (line 176), the diagnostic
  strings too. With the message \<open>proxy scholar@host refused\<close> for one name, the
  clean-up finds a title word and an \<open>@\<close>, \<^verbatim>\<open>split("@ ")[1]\<close> raises
  \<^verbatim>\<open>IndexError\<close>, and the extractor returns nothing. With the message
  \<open>Cannot Fetch from Google Scholar.\<close> the clean-up finds a title word and no comma,
  and the affiliation stored for the name is the empty string, not the diagnostic.
\<close>

theorem failed_lookup_aborts_batch:
  "get_scholar_info refused_search ''Lee, Ann''
     = Inr ''An error occurred: proxy scholar@host refused'' \<and>
   get_coauthors_from_pubs refused_world demo_papers None None = Inl IndexError \<and>
   get_scholar_info blocked_search ''Lee, Ann''
     = Inr ''An error occurred: Cannot Fetch from Google Scholar.'' \<and>
   get_coauthors_from_pubs blocked_world demo_papers None None
     = Inr ([''Adams, Bob'', ''Author, Old'', ''Doe, Jane'', ''Lee, Ann'', ''Smith, John A''],
            [[], ''Example University'', ''Example University'', [],
             ''An error occurred: timed out''])"
  by code_simp

text \<open>
  C6. When the name given as \<open>my_name\<close> is one of the names left by the
  de-duplication, it is not in the list of names returned: that list holds exactly the
  other names, so it is one shorter, and the list of affiliations has the same length.
\<close>

theorem self_excluded:
  assumes "dedup_stage w papers cutoff = Inr unique"
    and "me \<in> set unique"
    and "get_coauthors_from_pubs w papers cutoff (Some me) = Inr (names, affs)"
  shows "me \<notin> set names \<and> set names = set unique - {me} \<and>
    length names = length unique - 1 \<and> length affs = length names"
proof -
  from get_coauthors_from_pubs_Inr[OF assms(3)] assms(1)
  have n: "names = sort (remove_self (Some me) unique)" by auto
  from dedup_stage_distinct[OF assms(1)] have d: "distinct unique" and "[] \<notin> set unique"
    by simp_all
  with assms(2) have "me \<noteq> []" by auto
  with assms(2) n have n': "names = sort (remove1 me unique)"
    by (simp add: remove_self_def)
  from n' d have s: "set names = set unique - {me}" by simp
  from n' assms(2) have l: "length names = length unique - 1"
    by (simp add: length_remove1)
  from s l get_coauthors_from_pubs_length[OF assms(3)] show ?thesis by simp
qed

theorem self_excluded_witness:
  "dedup_stage demo_world demo_papers (Some 2022)
     = Inr [''Adams, Bob'', ''Smith, John A'', ''Doe, Jane'', ''Lee, Ann''] \<and>
   get_coauthors_from_pubs demo_world demo_papers (Some 2022) (Some ''Doe, Jane'')
     = Inr ([''Adams, Bob'', ''Lee, Ann'', ''Smith, John A''],
            [[], ''Example University'', ''An error occurred: timed out'']) \<and>
   ''Doe, Jane'' \<notin> set [''Adams, Bob'', ''Lee, Ann'', ''Smith, John A'']"
proof -
  have a: "dedup_stage demo_world demo_papers (Some 2022)
     = Inr [''Adams, Bob'', ''Smith, John A'', ''Doe, Jane'', ''Lee, Ann'']"
    by code_simp
  have b: "''Doe, Jane'' \<in> set [''Adams, Bob'', ''Smith, John A'', ''Doe, Jane'', ''Lee, Ann'']"
    by simp
  have c: "get_coauthors_from_pubs demo_world demo_papers (Some 2022) (Some ''Doe, Jane'')
     = Inr ([''Adams, Bob'', ''Lee, Ann'', ''Smith, John A''],
            [[], ''Example University'', ''An error occurred: timed out''])"
    by code_simp
  from self_excluded[OF a b c] a c show ?thesis by blast
qed

text \<open>
  C8. Whenever the extractor returns, its two lists have the same length, the names are
  in ascending order, and the affiliation at each index is the cleaned form of what the
  look-up returned for the name at that index, the look-ups being made in the order of
  the list.
\<close>

theorem output_aligned_sorted:
  assumes "get_coauthors_from_pubs w papers cutoff my_name = Inr (names, affs)"
  shows "length affs = length names \<and> sorted names \<and>
    (\<forall>i<length names. \<exists>raw.
       get_scholar_info (search_author w i) (names ! i) = Inr raw \<and>
       nsf_affiliation_cleanup1 raw = Inr (affs ! i))"
proof -
  from get_coauthors_from_pubs_Inr[OF assms] obtain unique raws where
    n: "names = sort (remove_self my_name unique)"
    and l: "lookup_affiliations (search_author w) 0 names = Inr raws"
    and c: "nsf_affiliation_cleanup raws = Inr affs" by blast
  from lookup_affiliations_returns[of "search_author w" 0 names] l
  have lr: "length raws = length names"
    and r: "\<forall>i<length names. get_scholar_info (search_author w i) (names ! i) = Inr (raws ! i)"
    by auto
  from nsf_affiliation_cleanup_nth[OF c] lr
  have la: "length affs = length names"
    and a: "\<forall>i<length names. nsf_affiliation_cleanup1 (raws ! i) = Inr (affs ! i)"
    by auto
  from n have "sorted names" by simp
  with la r a show ?thesis by blast
qed

theorem output_aligned_sorted_witness:
  "get_coauthors_from_pubs demo_world demo_papers None None
     = Inr ([''Adams, Bob'', ''Author, Old'', ''Doe, Jane'', ''Lee, Ann'', ''Smith, John A''],
            [[], ''Example University'', ''Example University'', ''Example University'',
             ''An error occurred: timed out'']) \<and>
   sorted [''Adams, Bob'', ''Author, Old'', ''Doe, Jane'', ''Lee, Ann'', ''Smith, John A'']"
proof -
  have c: "get_coauthors_from_pubs demo_world demo_papers None None
     = Inr ([''Adams, Bob'', ''Author, Old'', ''Doe, Jane'', ''Lee, Ann'', ''Smith, John A''],
            [[], ''Example University'', ''Example University'', ''Example University'',
             ''An error occurred: timed out''])"
    by code_simp
  from output_aligned_sorted[OF c] c show ?thesis by blast
qed

text \<open>
  C9. The claim: each line written is the name between double quotes, a comma, the
  affiliation between double quotes and a newline, with nothing else. The string written
  for \<open>Smith, John\<close> and \<open>MIT\<close> begins with a space and has a space before the
  newline, so the first field does not begin with its quote.
\<close>

theorem dump_loop_writes_spaces:
  "dump_loop [''Smith, John''] [''MIT''] =
     Inr ([quoted ''Smith, John''],
          ['' '' @ quoted ''Smith, John'' @ '','' @ quoted ''MIT'' @ '' '' @ [nl]]) \<and>
   '' '' @ quoted ''Smith, John'' @ '','' @ quoted ''MIT'' @ '' '' @ [nl]
     \<noteq> quoted ''Smith, John'' @ '','' @ quoted ''MIT'' @ [nl]"
  by (simp add: bind_err_def csv_line_def quoted_def dq_def)

text \<open>
  C10. Take a call of \<open>get_coauthors\<close> without a file name that returns the names
  \<open>names\<close>. The same call with a file name that counts as true, the file opening,
  returns each of these names between double quotes, which is a different list unless it
  is empty; with the empty string as file name it returns \<open>names\<close>.
\<close>

theorem get_coauthors_returns_quoted:
  assumes "get_coauthors w scholar_id years_back None = Inr names"
  shows "get_coauthors w scholar_id years_back (Some (PathStr [])) = Inr names \<and>
    (path_truthy f \<and> open_file w f = None \<longrightarrow>
       get_coauthors w scholar_id years_back (Some f) = Inr (map quoted names)) \<and>
    (names \<noteq> [] \<longrightarrow> map quoted names \<noteq> names)"
proof -
  let ?cutoff = "case years_back of None \<Rightarrow> None
      | Some n \<Rightarrow> if n \<noteq> 0 then Some (today_year w - n) else None"
  from assms obtain profile affs where
    p: "scholar_profile_of w scholar_id = Inr profile"
    and g: "get_coauthors_from_pubs w
              (case profile_publications profile of None \<Rightarrow> [] | Some ps \<Rightarrow> ps) ?cutoff
              (Some (case profile_name profile of None \<Rightarrow> [] | Some n \<Rightarrow> n))
            = Inr (names, affs)"
    unfolding get_coauthors_def Let_def by (auto dest!: bind_err_Inr)
  from get_coauthors_from_pubs_length[OF g] have l: "length affs = length names" .
  have 1: "get_coauthors w scholar_id years_back (Some (PathStr [])) = Inr names"
    unfolding get_coauthors_def Let_def by (simp add: p g bind_err_def)
  have 2: "get_coauthors w scholar_id years_back (Some f) = Inr (map quoted names)"
    if "path_truthy f" "open_file w f = None"
    unfolding get_coauthors_def Let_def
    using that by (simp add: p g bind_err_def dump_to_csv_def dump_loop_eq[OF l])
  have 3: "map quoted names \<noteq> names" if "names \<noteq> []"
  proof
    assume e: "map quoted names = names"
    from that obtain n ns where "names = n # ns" by (cases names) auto
    with e have "quoted n = n" by simp
    then have "length (quoted n) = length n" by simp
    then show False by (simp add: quoted_def)
  qed
  from 1 2 3 show ?thesis by blast
qed

theorem get_coauthors_returns_quoted_witness:
  "get_coauthors demo_world ''1KXRphAAAAAJ'' (Some 4) None
     = Inr [''Adams, Bob'', ''Lee, Ann'', ''Smith, John A''] \<and>
   get_coauthors demo_world ''1KXRphAAAAAJ'' (Some 4) (Some (PathStr ''coauthors.csv''))
     = Inr [quoted ''Adams, Bob'', quoted ''Lee, Ann'', quoted ''Smith, John A''] \<and>
   [quoted ''Adams, Bob'', quoted ''Lee, Ann'', quoted ''Smith, John A'']
     \<noteq> [''Adams, Bob'', ''Lee, Ann'', ''Smith, John A'']"
proof -
  have a: "get_coauthors demo_world ''1KXRphAAAAAJ'' (Some 4) None
     = Inr [''Adams, Bob'', ''Lee, Ann'', ''Smith, John A'']"
    by code_simp
  have t: "path_truthy (PathStr ''coauthors.csv'') \<and>
     open_file demo_world (PathStr ''coauthors.csv'') = None"
    by (simp add: demo_world_def)
  from get_coauthors_returns_quoted[OF a, of "PathStr ''coauthors.csv''"] t a
  show ?thesis by simp
qed

end
